theory Spec2Isabelle
  imports Main "HOL-Library.Word"
begin

section \<open>Packrat hash reconciliation and auto-snapshot scheduling (SessionPackrat.cpp)\<close>

text \<open>
  A shallow embedding of the anonymous-namespace core of
  \<^verbatim>\<open>src/cpp/session/modules/SessionPackrat.cpp\<close>: the stored and computed hashes,
  \<^verbatim>\<open>checkHashes\<close>, the auto-snapshot scheduler (\<^verbatim>\<open>performAutoSnapshot\<close>,
  \<^verbatim>\<open>pendingSnapshot\<close>, \<^verbatim>\<open>AutoSnapshot::onCompleted\<close>) and the file-change router
  (\<^verbatim>\<open>onFileChanged\<close>).

  The C++ functions read the disk and call into R; everything they read is collected in
  a record \<open>world\<close> that is fixed for the duration of one handler call. Everything
  they mutate (the persistent client state, the two function-local statics, the error
  log, the client event queue, the started processes) is a field of the record
  \<open>state\<close>, passed in and returned.
\<close>

subsection \<open>Data model\<close>

datatype PackratHashType = HASH_TYPE_LOCKFILE | HASH_TYPE_LIBRARY

datatype PendingSnapshotAction = SET_PENDING_SNAPSHOT | COMPLETE_SNAPSHOT

text \<open>\<^verbatim>\<open>core::Error\<close>, reduced to its description.\<close>

datatype Error = Error string

text \<open>\<^verbatim>\<open>json::Value\<close>: null, a string, or an array (enough for the values this file handles).\<close>

datatype json_value = JsonNull | JsonString string | JsonArray "json_value list"

text \<open>
  An R object returned by \<^verbatim>\<open>.rs.pendingRestoreActions\<close>: a vector of opaque elements;
  \<^verbatim>\<open>r::sexp::length\<close> is the length of the list.
\<close>

type_synonym SEXP = "string list"

text \<open>
  \<^verbatim>\<open>core::FilePath\<close> (core/FilePath.hpp) is not part of the sources; a path is modelled as
  the list of its components, the root being the empty list.
\<close>

type_synonym FilePath = "string list"

text \<open>
  Modelled from the spec: \<^verbatim>\<open>FilePath::filename\<close>, missing with core/FilePath.hpp; the last
  component of the path, empty for the root.
\<close>

definition filename :: "FilePath \<Rightarrow> string" where
  "filename p = (if p = [] then [] else last p)"

text \<open>
  Modelled from the spec: \<^verbatim>\<open>FilePath::parent\<close>, missing with core/FilePath.hpp; the path
  without its last component.
\<close>

definition parent :: "FilePath \<Rightarrow> FilePath" where
  "parent p = butlast p"

text \<open>
  Modelled from the spec: \<^verbatim>\<open>FilePath::complete\<close>, missing with core/FilePath.hpp; the
  components of the relative path appended to the directory.
\<close>

definition complete :: "FilePath \<Rightarrow> string list \<Rightarrow> FilePath" where
  "complete dir rel = dir @ rel"

text \<open>
  Modelled from the spec: \<^verbatim>\<open>FilePath::isWithin\<close>, missing with core/FilePath.hpp; a path is
  within a scope when it is the scope itself or lies in its subtree.
\<close>

definition isWithin :: "FilePath \<Rightarrow> FilePath \<Rightarrow> bool" where
  "isWithin p scopePath = (take (length scopePath) p = scopePath)"

datatype ClientEvent = kInstalledPackagesChanged | kPackratRestoreNeeded json_value

text \<open>
  What one handler call can observe outside the session: the project directory, the file
  system, the checksum function of core/Hash.hpp (not part of the sources, a parameter),
  the answers of the two R functions, the SEXP to JSON conversion of r/RJson.hpp (a
  parameter), and whether \<^verbatim>\<open>AsyncRProcess::start\<close> gets the process running.
\<close>

record world =
  projectDirectory :: FilePath
  fileExists :: "FilePath \<Rightarrow> bool"
  isDirectory :: "FilePath \<Rightarrow> bool"
  readStringFromFile :: "FilePath \<Rightarrow> Error + string"
  childrenRecursive :: "FilePath \<Rightarrow> FilePath list"
  crc32HexHash :: "string \<Rightarrow> string"
  pendingRestoreActions :: "Error + SEXP"
  jsonValueFromObject :: "SEXP \<Rightarrow> json_value"
  getAutoSnapshotCmd :: "Error + string"
  processStarts :: bool

text \<open>
  An \<^verbatim>\<open>AutoSnapshot\<close> object: its \<^verbatim>\<open>targetHash_\<close> member and the running flag of its base
  class \<^verbatim>\<open>AsyncRProcess\<close>, read by \<^verbatim>\<open>isRunning()\<close>.
\<close>

record AutoSnapshot =
  targetHash :: string
  isRunning :: bool

text \<open>
  The mutable session state:
  \<^item> \<open>projectPersistent\<close>: the per-project persistent client state, keyed by scope and name;
  \<^item> \<open>recursing\<close>: the guard behind \<^verbatim>\<open>DROP_RECURSIVE_CALLS\<close> in \<^verbatim>\<open>checkHashes\<close>;
  \<^item> \<open>pendingSnapshots\<close>: \<^verbatim>\<open>static int pendingSnapshots\<close> of \<^verbatim>\<open>pendingSnapshot\<close>,
    a 32-bit word read as two's complement (\<open>sint\<close>, \<open><s\<close>);
  \<^item> \<open>pAutoSnapshot\<close>: \<^verbatim>\<open>static boost::shared_ptr<AutoSnapshot> pAutoSnapshot\<close> of
    \<^verbatim>\<open>performAutoSnapshot\<close>, \<open>None\<close> for the null pointer;
  \<^item> \<open>errorLog\<close>: the errors passed to \<^verbatim>\<open>LOG_ERROR\<close>, oldest first;
  \<^item> \<open>clientEvents\<close>: the events passed to \<^verbatim>\<open>enqueClientEvent\<close>, oldest first;
  \<^item> \<open>startedProcesses\<close>: the calls of \<^verbatim>\<open>AsyncRProcess::start\<close>, as (command, working
    directory, target hash of the starting object), oldest first.
\<close>

record state =
  projectPersistent :: "string \<times> string \<Rightarrow> json_value option"
  recursing :: bool
  pendingSnapshots :: "32 word"
  pAutoSnapshot :: "AutoSnapshot option"
  errorLog :: "Error list"
  clientEvents :: "ClientEvent list"
  startedProcesses :: "(string \<times> FilePath \<times> string) list"

definition LOG_ERROR :: "Error \<Rightarrow> state \<Rightarrow> state" where
  "LOG_ERROR e s = s\<lparr>errorLog := errorLog s @ [e]\<rparr>"

definition enqueClientEvent :: "ClientEvent \<Rightarrow> state \<Rightarrow> state" where
  "enqueClientEvent ev s = s\<lparr>clientEvents := clientEvents s @ [ev]\<rparr>"

subsection \<open>Library and lockfile hashing and comparison\<close>

definition keyOfHashType :: "PackratHashType \<Rightarrow> string" where
  "keyOfHashType hashType =
     (if hashType = HASH_TYPE_LOCKFILE then ''packratLockfileHash'' else ''packratLibraryHash'')"

text \<open>
  \<^verbatim>\<open>getProjectPersistent\<close> answers a null value for a missing key, so \<^verbatim>\<open>getStoredHash\<close>
  is the empty string for a missing key and for a value that is not a string.
\<close>

definition getProjectPersistent :: "string \<Rightarrow> string \<Rightarrow> state \<Rightarrow> json_value" where
  "getProjectPersistent scope name s =
     (case projectPersistent s (scope, name) of None \<Rightarrow> JsonNull | Some v \<Rightarrow> v)"

definition putProjectPersistent :: "string \<Rightarrow> string \<Rightarrow> json_value \<Rightarrow> state \<Rightarrow> state" where
  "putProjectPersistent scope name v s =
     s\<lparr>projectPersistent := (projectPersistent s)((scope, name) \<mapsto> v)\<rparr>"

definition getStoredHash :: "PackratHashType \<Rightarrow> state \<Rightarrow> string" where
  "getStoredHash hashType s =
     (case getProjectPersistent ''packrat'' (keyOfHashType hashType) s of
        JsonString h \<Rightarrow> h
      | _ \<Rightarrow> [])"

definition setStoredHash :: "PackratHashType \<Rightarrow> string \<Rightarrow> state \<Rightarrow> state" where
  "setStoredHash hashType h s =
     putProjectPersistent ''packrat'' (keyOfHashType hashType) (JsonString h) s"

text \<open>
  \<^verbatim>\<open>addDescContent\<close>: the content of a file named DESCRIPTION is appended, a read error is
  dropped and appends nothing; every other path leaves the accumulator alone.
\<close>

definition addDescContent :: "world \<Rightarrow> FilePath \<Rightarrow> string \<Rightarrow> string" where
  "addDescContent w path descContent =
     (if filename path = ''DESCRIPTION''
      then (case readStringFromFile w path of
              Inl e \<Rightarrow> descContent
            | Inr newDescContent \<Rightarrow> descContent @ newDescContent)
      else descContent)"

definition computeLibraryHash :: "world \<Rightarrow> string" where
  "computeLibraryHash w =
     (let libraryPath = complete (projectDirectory w) [''packrat'', ''lib''];
          descFileContent = foldl (\<lambda>acc path. addDescContent w path acc) []
                              (childrenRecursive w libraryPath)
      in if descFileContent = [] then [] else crc32HexHash w descFileContent)"

text \<open>\<^verbatim>\<open>computeLockfileHash\<close> logs a read error, so it returns the state as well.\<close>

definition computeLockfileHash :: "world \<Rightarrow> state \<Rightarrow> string \<times> state" where
  "computeLockfileHash w s =
     (let lockFilePath = complete (projectDirectory w) [''packrat'', ''packrat.lock'']
      in if \<not> fileExists w lockFilePath then ([], s)
         else (case readStringFromFile w lockFilePath of
                 Inl error \<Rightarrow> ([], LOG_ERROR error s)
               | Inr lockFileContent \<Rightarrow> (crc32HexHash w lockFileContent, s)))"

definition getComputedHash :: "world \<Rightarrow> PackratHashType \<Rightarrow> state \<Rightarrow> string \<times> state" where
  "getComputedHash w hashType s =
     (if hashType = HASH_TYPE_LOCKFILE then computeLockfileHash w s
      else (computeLibraryHash w, s))"

text \<open>
  Modelled from the spec: \<^verbatim>\<open>DROP_RECURSIVE_CALLS\<close> (core/RecursionGuard.hpp) is not part of
  the sources. Following the specification's reconciliation guard, the body runs only
  when the guard flag is clear, with the flag set for the duration of the body and
  cleared when it returns; a call that finds the flag set returns at once.
\<close>

definition DROP_RECURSIVE_CALLS :: "(state \<Rightarrow> state) \<Rightarrow> state \<Rightarrow> state" where
  "DROP_RECURSIVE_CALLS body s =
     (if recursing s then s
      else (body (s\<lparr>recursing := True\<rparr>))\<lparr>recursing := False\<rparr>)"

definition checkHashes ::
  "world \<Rightarrow> PackratHashType \<Rightarrow> PackratHashType \<Rightarrow> (string \<Rightarrow> string \<Rightarrow> state \<Rightarrow> state)
     \<Rightarrow> state \<Rightarrow> state" where
  "checkHashes w primary secondary onPrimaryMismatch =
     DROP_RECURSIVE_CALLS (\<lambda>s.
       let oldHash = getStoredHash primary s;
           (newHash, s1) = getComputedHash w primary s
       in if oldHash = newHash then s1
          else (let (newSecondary, s2) = getComputedHash w secondary s1
                in if getStoredHash secondary s2 = newSecondary
                   then onPrimaryMismatch oldHash newHash s2
                   else (let s3 = setStoredHash primary newHash s2;
                             (h, s4) = getComputedHash w secondary s3
                         in setStoredHash secondary h s4)))"

subsection \<open>Auto-snapshot\<close>

text \<open>
  Modelled from the spec: \<^verbatim>\<open>async_r::AsyncRProcess\<close> (session/SessionAsyncRProcess.hpp), the
  base class of \<^verbatim>\<open>AutoSnapshot\<close>, is not part of the sources. \<^verbatim>\<open>start\<close> invokes the external
  tool asynchronously in the given directory; the object is running afterwards when the
  launch succeeded (\<open>processStarts\<close>). When the external process exits the object is no
  longer running and the completion callback \<^verbatim>\<open>onCompleted\<close> is invoked with the exit
  status (\<open>onProcessCompleted\<close> below).
\<close>

definition start :: "world \<Rightarrow> string \<Rightarrow> FilePath \<Rightarrow> AutoSnapshot \<Rightarrow> state \<Rightarrow> AutoSnapshot \<times> state" where
  "start w command workingDir p s =
     (p\<lparr>isRunning := processStarts w\<rparr>,
      s\<lparr>startedProcesses := startedProcesses s @ [(command, workingDir, targetHash p)]\<rparr>)"

text \<open>
  \<^verbatim>\<open>AutoSnapshot::create\<close>: an error of \<^verbatim>\<open>.rs.getAutoSnapshotCmd\<close> is logged and leaves the
  command empty; the process is started all the same.
\<close>

definition create :: "world \<Rightarrow> FilePath \<Rightarrow> string \<Rightarrow> state \<Rightarrow> AutoSnapshot \<times> state" where
  "create w projectDir target s =
     (let pSnapshot = \<lparr>targetHash = [], isRunning = False\<rparr>;
          (snapshotCmd, s1) = (case getAutoSnapshotCmd w of
                                 Inl error \<Rightarrow> ([], LOG_ERROR error s)
                               | Inr cmd \<Rightarrow> (cmd, s))
      in start w snapshotCmd projectDir (pSnapshot\<lparr>targetHash := target\<rparr>) s1)"

text \<open>
  \<^verbatim>\<open>pendingSnapshot\<close> and \<^verbatim>\<open>performAutoSnapshot\<close> call each other. The increment of the
  counter wraps around (addition on \<open>32 word\<close>); the test \<^verbatim>\<open>pendingSnapshots > 0\<close> is the
  signed comparison.
\<close>

function pendingSnapshot :: "world \<Rightarrow> PendingSnapshotAction \<Rightarrow> state \<Rightarrow> state"
  and performAutoSnapshot :: "world \<Rightarrow> string \<Rightarrow> state \<Rightarrow> state" where
  "pendingSnapshot w SET_PENDING_SNAPSHOT s = s\<lparr>pendingSnapshots := pendingSnapshots s + 1\<rparr>"
| "pendingSnapshot w COMPLETE_SNAPSHOT s =
     (if 0 <s pendingSnapshots s
      then performAutoSnapshot w (computeLibraryHash w) (s\<lparr>pendingSnapshots := 0\<rparr>)
      else (let (lockfileHash, s1) = computeLockfileHash w s;
                s2 = setStoredHash HASH_TYPE_LOCKFILE lockfileHash s1;
                s3 = setStoredHash HASH_TYPE_LIBRARY (computeLibraryHash w) s2
            in enqueClientEvent kInstalledPackagesChanged s3))"
| "performAutoSnapshot w newHash s =
     (case pAutoSnapshot s of
        Some p \<Rightarrow>
          if isRunning p
          then (if targetHash p = newHash then s
                else pendingSnapshot w SET_PENDING_SNAPSHOT s)
          else (let (p', s1) = create w (projectDirectory w) newHash s
                in s1\<lparr>pAutoSnapshot := Some p'\<rparr>)
      | None \<Rightarrow>
          (let (p', s1) = create w (projectDirectory w) newHash s
           in s1\<lparr>pAutoSnapshot := Some p'\<rparr>))"
  by pat_completeness auto
termination
  by (relation "measure (\<lambda>x. case x of
                    Inl (w, action, s) \<Rightarrow> (if action = COMPLETE_SNAPSHOT then 2 else 0)
                  | Inr (w, newHash, s) \<Rightarrow> Suc 0)") auto

text \<open>\<^verbatim>\<open>AutoSnapshot::onCompleted\<close>.\<close>

definition onCompleted :: "world \<Rightarrow> int \<Rightarrow> state \<Rightarrow> state" where
  "onCompleted w exitStatus s =
     (if exitStatus \<noteq> 0 then s else pendingSnapshot w COMPLETE_SNAPSHOT s)"

text \<open>
  Modelled from the spec: the exit of the external process, as \<^verbatim>\<open>AsyncRProcess\<close> (not part
  of the sources) delivers it: the snapshot object stops running, then its completion
  callback runs.
\<close>

definition onProcessCompleted :: "world \<Rightarrow> int \<Rightarrow> state \<Rightarrow> state" where
  "onProcessCompleted w exitStatus s =
     onCompleted w exitStatus
       (s\<lparr>pAutoSnapshot := map_option (\<lambda>p. p\<lparr>isRunning := False\<rparr>) (pAutoSnapshot s)\<rparr>)"

subsection \<open>Library and lockfile monitoring\<close>

definition onLockfileUpdate :: "world \<Rightarrow> string \<Rightarrow> string \<Rightarrow> state \<Rightarrow> state" where
  "onLockfileUpdate w oldHash newHash s =
     (case pendingRestoreActions w of
        Inl error \<Rightarrow> LOG_ERROR error s
      | Inr actions \<Rightarrow>
          if length actions = 0
          then setStoredHash HASH_TYPE_LOCKFILE newHash s
          else enqueClientEvent (kPackratRestoreNeeded (jsonValueFromObject w actions)) s)"

definition onLibraryUpdate :: "world \<Rightarrow> string \<Rightarrow> string \<Rightarrow> state \<Rightarrow> state" where
  "onLibraryUpdate w oldHash newHash s = performAutoSnapshot w newHash s"

text \<open>
  \<^verbatim>\<open>onFileChanged\<close> in two steps: which of its branches a path takes
  (\<open>onFileChanged_branch\<close>, the conditions of the function in their order), and what that
  branch calls.
\<close>

datatype Dispatch = CheckLockfile | CheckLibrary | Ignored

definition onFileChanged_branch :: "world \<Rightarrow> FilePath \<Rightarrow> Dispatch" where
  "onFileChanged_branch w sourceFilePath =
     (let libraryPath = complete (projectDirectory w) [''packrat'', ''lib'']
      in if filename sourceFilePath = ''packrat.lock'' then CheckLockfile
         else if isWithin sourceFilePath libraryPath \<and>
                 (isDirectory w sourceFilePath \<or> filename sourceFilePath = ''DESCRIPTION'')
         then (if filename sourceFilePath = ''manipulate'' \<or>
                  filename sourceFilePath = ''rstudio'' \<or>
                  filename (parent sourceFilePath) = ''manipulate'' \<or>
                  filename (parent sourceFilePath) = ''rstudio''
               then Ignored
               else CheckLibrary)
         else Ignored)"

definition onFileChanged :: "world \<Rightarrow> FilePath \<Rightarrow> state \<Rightarrow> state" where
  "onFileChanged w sourceFilePath s =
     (case onFileChanged_branch w sourceFilePath of
        CheckLockfile \<Rightarrow>
          checkHashes w HASH_TYPE_LOCKFILE HASH_TYPE_LIBRARY (onLockfileUpdate w) s
      | CheckLibrary \<Rightarrow>
          checkHashes w HASH_TYPE_LIBRARY HASH_TYPE_LOCKFILE (onLibraryUpdate w) s
      | Ignored \<Rightarrow> s)"

definition onPackageLibraryMutated :: "world \<Rightarrow> state \<Rightarrow> state" where
  "onPackageLibraryMutated w s =
     (let libraryPath = complete (projectDirectory w) [''packrat'', ''lib'']
      in if fileExists w libraryPath
         then checkHashes w HASH_TYPE_LIBRARY HASH_TYPE_LOCKFILE (onLibraryUpdate w) s
         else s)"

fun onFilesChanged :: "world \<Rightarrow> FilePath list \<Rightarrow> state \<Rightarrow> state" where
  "onFilesChanged w [] s = s"
| "onFilesChanged w (changedFilePath # changes) s =
     onFilesChanged w changes (onFileChanged w changedFilePath s)"

subsection \<open>Auxiliary definitions for the statements\<close>

text \<open>The command \<^verbatim>\<open>AutoSnapshot::create\<close> passes to \<^verbatim>\<open>start\<close>: empty when the R call failed.\<close>

definition snapshotCmd :: "world \<Rightarrow> string" where
  "snapshotCmd w = (case getAutoSnapshotCmd w of Inl error \<Rightarrow> [] | Inr cmd \<Rightarrow> cmd)"

text \<open>
  A mismatch callback whose side effects raise file-change events synchronously: one
  event (\<open>pathBefore\<close>, seen in the world \<open>wBefore\<close>) before the callback's own work and
  one (\<open>pathAfter\<close>, seen in \<open>wAfter\<close>) after it, each delivered to \<open>onFileChanged\<close>.
\<close>

definition withFileChanges ::
  "world \<Rightarrow> FilePath \<Rightarrow> world \<Rightarrow> FilePath \<Rightarrow> (string \<Rightarrow> string \<Rightarrow> state \<Rightarrow> state)
     \<Rightarrow> string \<Rightarrow> string \<Rightarrow> state \<Rightarrow> state" where
  "withFileChanges wBefore pathBefore wAfter pathAfter onPrimaryMismatch oldHash newHash s =
     onFileChanged wAfter pathAfter
       (onPrimaryMismatch oldHash newHash (onFileChanged wBefore pathBefore s))"

text \<open>
  A concrete project for the examples: directory \<open>proj\<close>, a lockfile, one package in the
  private library with a DESCRIPTION file. The checksum is a parameter of the model; the
  examples take the identity, so that a file with content \<open>A2\<close> hashes to \<open>A2\<close>.
\<close>

definition exampleWorld :: "string \<Rightarrow> string \<Rightarrow> Error + SEXP \<Rightarrow> world" where
  "exampleWorld lockfileContent descriptionContent query =
     \<lparr>projectDirectory = [''proj''],
      fileExists = (\<lambda>p. p = [''proj'', ''packrat'', ''packrat.lock'']
                        \<or> p = [''proj'', ''packrat'', ''lib'']),
      isDirectory = (\<lambda>p. p = [''proj'', ''packrat'', ''lib'']
                         \<or> p = [''proj'', ''packrat'', ''lib'', ''pkg'']),
      readStringFromFile = (\<lambda>p.
         if p = [''proj'', ''packrat'', ''packrat.lock''] then Inr lockfileContent
         else if p = [''proj'', ''packrat'', ''lib'', ''pkg'', ''DESCRIPTION'']
         then Inr descriptionContent
         else Inl (Error ''cannot open file'')),
      childrenRecursive = (\<lambda>p.
         if p = [''proj'', ''packrat'', ''lib'']
         then [[''proj'', ''packrat'', ''lib'', ''pkg''],
               [''proj'', ''packrat'', ''lib'', ''pkg'', ''DESCRIPTION'']]
         else []),
      crc32HexHash = (\<lambda>content. content),
      pendingRestoreActions = query,
      jsonValueFromObject = (\<lambda>actions. JsonArray (map JsonString actions)),
      getAutoSnapshotCmd = Inr ''packrat::snapshot()'',
      processStarts = True\<rparr>"

text \<open>Stored lockfile hash \<open>A\<close>, stored library hash \<open>B\<close>, nothing running, nothing queued.\<close>

definition exampleState :: state where
  "exampleState =
     \<lparr>projectPersistent = [(''packrat'', ''packratLockfileHash'') \<mapsto> JsonString ''A'',
                           (''packrat'', ''packratLibraryHash'') \<mapsto> JsonString ''B''],
      recursing = False,
      pendingSnapshots = 0,
      pAutoSnapshot = None,
      errorLog = [],
      clientEvents = [],
      startedProcesses = []\<rparr>"

text \<open>The same with a snapshot towards the library hash \<open>B2\<close> running.\<close>

definition runningState :: state where
  "runningState = exampleState\<lparr>pAutoSnapshot := Some \<lparr>targetHash = ''B2'', isRunning = True\<rparr>\<rparr>"

text \<open>
  The events the module reacts to, as \<^verbatim>\<open>initialize\<close> registers them: a changed file (from
  the file monitor, one call of \<open>onFileChanged\<close> per file of a batch, or from the source
  editor), a mutated package library, and the exit of the snapshot process. Each event
  comes with the world it is handled in. The statics are zero-initialised; the persistent
  store is whatever the project has.
\<close>

datatype Event = FileChanged FilePath | PackageLibraryMutated | ProcessCompleted int

fun handleEvent :: "world \<times> Event \<Rightarrow> state \<Rightarrow> state" where
  "handleEvent (w, FileChanged path) s = onFileChanged w path s"
| "handleEvent (w, PackageLibraryMutated) s = onPackageLibraryMutated w s"
| "handleEvent (w, ProcessCompleted exitStatus) s = onProcessCompleted w exitStatus s"

fun runEvents :: "(world \<times> Event) list \<Rightarrow> state \<Rightarrow> state" where
  "runEvents [] s = s"
| "runEvents (e # es) s = runEvents es (handleEvent e s)"

definition initialState :: "(string \<times> string \<Rightarrow> json_value option) \<Rightarrow> state" where
  "initialState store =
     \<lparr>projectPersistent = store, recursing = False, pendingSnapshots = 0, pAutoSnapshot = None,
      errorLog = [], clientEvents = [], startedProcesses = []\<rparr>"

text \<open>
  What one handler may do to the guard flag and to the pending count: leave the flag as it
  was, and leave the count, increment it once, or reset it.
\<close>

definition countStep :: "state \<Rightarrow> state \<Rightarrow> bool" where
  "countStep s s' \<longleftrightarrow>
     (recursing s' = recursing s) \<and>
     (pendingSnapshots s' = pendingSnapshots s \<or> pendingSnapshots s' = pendingSnapshots s + 1
        \<or> pendingSnapshots s' = 0)"

section \<open>Properties\<close>

subsection \<open>Basic facts\<close>

declare performAutoSnapshot.simps [simp del]

lemmas example_defs = exampleWorld_def exampleState_def runningState_def
  getStoredHash_def setStoredHash_def getProjectPersistent_def putProjectPersistent_def
  keyOfHashType_def getComputedHash_def computeLockfileHash_def computeLibraryHash_def
  addDescContent_def complete_def filename_def parent_def isWithin_def LOG_ERROR_def
  enqueClientEvent_def checkHashes_def DROP_RECURSIVE_CALLS_def onLockfileUpdate_def
  onLibraryUpdate_def onFileChanged_def onFileChanged_branch_def withFileChanges_def
  onCompleted_def onProcessCompleted_def create_def start_def snapshotCmd_def
  performAutoSnapshot.simps Let_def

lemma getStoredHash_setStoredHash:
  "getStoredHash t (setStoredHash t' h s) = (if t = t' then h else getStoredHash t s)"
  by (cases t; cases t')
     (simp_all add: getStoredHash_def setStoredHash_def getProjectPersistent_def
        putProjectPersistent_def keyOfHashType_def)

text \<open>The computed hash is a function of the world; computing it can only add to the error log.\<close>

lemma getComputedHash_fst:
  "fst (getComputedHash w t s) = fst (getComputedHash w t s')"
  by (simp add: getComputedHash_def computeLockfileHash_def Let_def split: sum.splits)

lemma getComputedHash_snd:
  "\<exists>es. snd (getComputedHash w t s) = s\<lparr>errorLog := errorLog s @ es\<rparr>"
proof (cases "snd (getComputedHash w t s) = s")
  case True
  then have "snd (getComputedHash w t s) = s\<lparr>errorLog := errorLog s @ []\<rparr>" by simp
  then show ?thesis ..
next
  case False
  then obtain e where "snd (getComputedHash w t s) = LOG_ERROR e s"
    by (auto simp: getComputedHash_def computeLockfileHash_def Let_def
          split: sum.splits if_splits)
  then have "snd (getComputedHash w t s) = s\<lparr>errorLog := errorLog s @ [e]\<rparr>"
    by (simp add: LOG_ERROR_def)
  then show ?thesis ..
qed

lemma recursing_getComputedHash: "recursing (snd (getComputedHash w t s)) = recursing s"
  using getComputedHash_snd [of w t s] by auto

lemma getStoredHash_getComputedHash:
  "getStoredHash t' (snd (getComputedHash w t s)) = getStoredHash t' s"
  using getComputedHash_snd [of w t s]
  by (auto simp: getStoredHash_def getProjectPersistent_def)

lemma checkHashes_recursing: "recursing s \<Longrightarrow> checkHashes w p sec cb s = s"
  by (simp add: checkHashes_def DROP_RECURSIVE_CALLS_def)

lemma onFileChanged_recursing: "recursing s \<Longrightarrow> onFileChanged w path s = s"
  by (simp add: onFileChanged_def checkHashes_recursing split: Dispatch.splits)

lemma onLockfileUpdate_recursing:
  "recursing (onLockfileUpdate w oldHash newHash s) = recursing s"
  by (simp add: onLockfileUpdate_def LOG_ERROR_def setStoredHash_def putProjectPersistent_def
        enqueClientEvent_def split: sum.splits)

text \<open>A pass in which only the primary hash has drifted hands over to the callback.\<close>

lemma checkHashes_primary_only:
  assumes "\<not> recursing s"
    and "getStoredHash primary s \<noteq> fst (getComputedHash w primary s)"
    and "getStoredHash secondary s = fst (getComputedHash w secondary s)"
  shows "checkHashes w primary secondary cb s =
           (cb (getStoredHash primary s) (fst (getComputedHash w primary s))
               (snd (getComputedHash w secondary
                  (snd (getComputedHash w primary (s\<lparr>recursing := True\<rparr>))))))
           \<lparr>recursing := False\<rparr>"
proof -
  define hp where "hp = fst (getComputedHash w primary s)"
  define hs where "hs = fst (getComputedHash w secondary s)"
  let ?s0 = "s\<lparr>recursing := True\<rparr>"
  have hp: "fst (getComputedHash w primary t) = hp" for t
    unfolding hp_def by (rule getComputedHash_fst)
  have hs: "fst (getComputedHash w secondary t) = hs" for t
    unfolding hs_def by (rule getComputedHash_fst)
  have st0: "getStoredHash t ?s0 = getStoredHash t s" for t
    by (simp add: getStoredHash_def getProjectPersistent_def)
  show ?thesis
    using assms
    by (simp add: checkHashes_def DROP_RECURSIVE_CALLS_def Let_def split_beta hp hs st0
          getStoredHash_getComputedHash)
qed

lemma lockfile_pass:
  assumes "\<not> recursing s"
    and "getStoredHash HASH_TYPE_LOCKFILE s \<noteq> fst (computeLockfileHash w s)"
    and "getStoredHash HASH_TYPE_LIBRARY s = computeLibraryHash w"
  shows "checkHashes w HASH_TYPE_LOCKFILE HASH_TYPE_LIBRARY cb s =
           (cb (getStoredHash HASH_TYPE_LOCKFILE s) (fst (computeLockfileHash w s))
               (snd (computeLockfileHash w (s\<lparr>recursing := True\<rparr>))))\<lparr>recursing := False\<rparr>"
  using checkHashes_primary_only [of s HASH_TYPE_LOCKFILE w HASH_TYPE_LIBRARY cb] assms
  by (simp add: getComputedHash_def)

subsection \<open>The reconciliation pass\<close>

text \<open>
  C3. In a pass that is not dropped by the guard and in which both the primary and the
  secondary computed hash differ from the stored ones, both stored hashes become the
  freshly computed values. Nothing else happens: no client event is queued, no process is
  started, the scheduler's state is untouched, and the result does not depend on the
  mismatch callback (it is the same for any two callbacks), which is therefore not run.
\<close>

theorem checkHashes_both_drifted:
  assumes "\<not> recursing s"
    and "getStoredHash primary s \<noteq> fst (getComputedHash w primary s)"
    and "getStoredHash secondary s \<noteq> fst (getComputedHash w secondary s)"
  shows "getStoredHash primary (checkHashes w primary secondary cb s) =
           fst (getComputedHash w primary s)
     \<and> getStoredHash secondary (checkHashes w primary secondary cb s) =
           fst (getComputedHash w secondary s)
     \<and> clientEvents (checkHashes w primary secondary cb s) = clientEvents s
     \<and> startedProcesses (checkHashes w primary secondary cb s) = startedProcesses s
     \<and> pAutoSnapshot (checkHashes w primary secondary cb s) = pAutoSnapshot s
     \<and> pendingSnapshots (checkHashes w primary secondary cb s) = pendingSnapshots s
     \<and> checkHashes w primary secondary cb s = checkHashes w primary secondary cb' s"
proof -
  let ?s0 = "s\<lparr>recursing := True\<rparr>"
  let ?s1 = "snd (getComputedHash w primary ?s0)"
  let ?s2 = "snd (getComputedHash w secondary ?s1)"
  define hp where "hp = fst (getComputedHash w primary s)"
  define hs where "hs = fst (getComputedHash w secondary s)"
  let ?s3 = "setStoredHash primary hp ?s2"
  let ?s4 = "snd (getComputedHash w secondary ?s3)"
  let ?s5 = "setStoredHash secondary hs ?s4"
  have hp: "fst (getComputedHash w primary t) = hp" for t
    unfolding hp_def by (rule getComputedHash_fst)
  have hs: "fst (getComputedHash w secondary t) = hs" for t
    unfolding hs_def by (rule getComputedHash_fst)
  have st0: "getStoredHash t ?s0 = getStoredHash t s" for t
    by (simp add: getStoredHash_def getProjectPersistent_def)
  have st2: "getStoredHash t ?s2 = getStoredHash t s" for t
    by (simp add: getStoredHash_getComputedHash st0)
  have eq: "checkHashes w primary secondary f s = ?s5\<lparr>recursing := False\<rparr>" for f
    using assms
    by (simp add: checkHashes_def DROP_RECURSIVE_CALLS_def Let_def split_beta hp hs st0 st2)
  obtain e1 where e1: "?s1 = ?s0\<lparr>errorLog := errorLog ?s0 @ e1\<rparr>"
    using getComputedHash_snd by blast
  obtain e2 where e2: "?s2 = ?s1\<lparr>errorLog := errorLog ?s1 @ e2\<rparr>"
    using getComputedHash_snd by blast
  obtain e4 where e4: "?s4 = ?s3\<lparr>errorLog := errorLog ?s3 @ e4\<rparr>"
    using getComputedHash_snd by blast
  have f1: "getStoredHash primary (?s5\<lparr>recursing := False\<rparr>) = hp"
  proof -
    have "getStoredHash primary (?s5\<lparr>recursing := False\<rparr>) = getStoredHash primary ?s5"
      by (simp add: getStoredHash_def getProjectPersistent_def)
    also have "\<dots> = (if primary = secondary then hs else hp)"
      by (simp add: getStoredHash_setStoredHash getStoredHash_getComputedHash)
    finally show ?thesis by (auto simp: hp_def hs_def)
  qed
  have f2: "getStoredHash secondary (?s5\<lparr>recursing := False\<rparr>) = hs"
  proof -
    have "getStoredHash secondary (?s5\<lparr>recursing := False\<rparr>) = getStoredHash secondary ?s5"
      by (simp add: getStoredHash_def getProjectPersistent_def)
    then show ?thesis by (simp add: getStoredHash_setStoredHash)
  qed
  have f3: "clientEvents (?s5\<lparr>recursing := False\<rparr>) = clientEvents s"
    by (subst e4, subst e2, subst e1) (simp add: setStoredHash_def putProjectPersistent_def)
  have f4: "startedProcesses (?s5\<lparr>recursing := False\<rparr>) = startedProcesses s"
    by (subst e4, subst e2, subst e1) (simp add: setStoredHash_def putProjectPersistent_def)
  have f5: "pAutoSnapshot (?s5\<lparr>recursing := False\<rparr>) = pAutoSnapshot s"
    by (subst e4, subst e2, subst e1) (simp add: setStoredHash_def putProjectPersistent_def)
  have f6: "pendingSnapshots (?s5\<lparr>recursing := False\<rparr>) = pendingSnapshots s"
    by (subst e4, subst e2, subst e1) (simp add: setStoredHash_def putProjectPersistent_def)
  show ?thesis
    unfolding eq [of cb] eq [of cb'] hp hs using f1 f2 f3 f4 f5 f6 by simp
qed

text \<open>
  Stored hashes \<open>A\<close> and \<open>B\<close>, the lockfile now hashes to \<open>A2\<close> and the library to \<open>B2\<close>:
  a library pass stores both, and starts no snapshot although its callback would.
\<close>

theorem checkHashes_both_drifted_witness:
  "\<not> recursing exampleState
   \<and> getStoredHash HASH_TYPE_LIBRARY exampleState \<noteq>
       fst (getComputedHash (exampleWorld ''A2'' ''B2'' (Inr [])) HASH_TYPE_LIBRARY exampleState)
   \<and> getStoredHash HASH_TYPE_LOCKFILE exampleState \<noteq>
       fst (getComputedHash (exampleWorld ''A2'' ''B2'' (Inr [])) HASH_TYPE_LOCKFILE exampleState)
   \<and> getStoredHash HASH_TYPE_LIBRARY
        (checkHashes (exampleWorld ''A2'' ''B2'' (Inr [])) HASH_TYPE_LIBRARY HASH_TYPE_LOCKFILE
           (onLibraryUpdate (exampleWorld ''A2'' ''B2'' (Inr []))) exampleState) = ''B2''
   \<and> getStoredHash HASH_TYPE_LOCKFILE
        (checkHashes (exampleWorld ''A2'' ''B2'' (Inr [])) HASH_TYPE_LIBRARY HASH_TYPE_LOCKFILE
           (onLibraryUpdate (exampleWorld ''A2'' ''B2'' (Inr []))) exampleState) = ''A2''
   \<and> startedProcesses
        (checkHashes (exampleWorld ''A2'' ''B2'' (Inr [])) HASH_TYPE_LIBRARY HASH_TYPE_LOCKFILE
           (onLibraryUpdate (exampleWorld ''A2'' ''B2'' (Inr []))) exampleState) = []"
proof -
  let ?w = "exampleWorld ''A2'' ''B2'' (Inr [])"
  have h1: "\<not> recursing exampleState"
    by (simp add: exampleState_def)
  have h2: "getStoredHash HASH_TYPE_LIBRARY exampleState \<noteq>
              fst (getComputedHash ?w HASH_TYPE_LIBRARY exampleState)"
    by (simp add: example_defs)
  have h3: "getStoredHash HASH_TYPE_LOCKFILE exampleState \<noteq>
              fst (getComputedHash ?w HASH_TYPE_LOCKFILE exampleState)"
    by (simp add: example_defs)
  have v2: "fst (getComputedHash ?w HASH_TYPE_LIBRARY exampleState) = ''B2''"
    by (simp add: example_defs)
  have v3: "fst (getComputedHash ?w HASH_TYPE_LOCKFILE exampleState) = ''A2''"
    by (simp add: example_defs)
  have v4: "startedProcesses exampleState = []"
    by (simp add: exampleState_def)
  show ?thesis
    using h1 h2 h3 checkHashes_both_drifted [OF h1 h2 h3, of "onLibraryUpdate ?w"]
    by (simp only: v2 v3 v4 simp_thms)
qed

text \<open>
  C9. A call of \<open>checkHashes\<close> that finds the guard held returns the state as it was:
  it compares no hash and runs no resolution step. Hence a file-change event delivered
  while a pass is in progress does nothing, and a pass whose callback raises file-change
  events synchronously, before and after its own work, ends in the same state as the
  pass with the plain callback: no second pass runs before the first returns. The
  callbacks of this file keep the guard held, as the second part requires.
\<close>

theorem nested_checkHashes_dropped:
  "(recursing s \<longrightarrow> checkHashes w primary secondary cb s = s)
   \<and> (recursing s \<longrightarrow> onFileChanged w path s = s)
   \<and> (\<not> recursing s \<and> (\<forall>oldHash newHash t. recursing t \<longrightarrow> recursing (cb oldHash newHash t))
        \<longrightarrow> checkHashes w primary secondary (withFileChanges wBefore pathBefore wAfter pathAfter cb) s
              = checkHashes w primary secondary cb s)"
proof (intro conjI impI)
  assume "recursing s"
  then show "checkHashes w primary secondary cb s = s" by (rule checkHashes_recursing)
next
  assume "recursing s"
  then show "onFileChanged w path s = s" by (rule onFileChanged_recursing)
next
  assume a: "\<not> recursing s \<and> (\<forall>oldHash newHash t. recursing t \<longrightarrow> recursing (cb oldHash newHash t))"
  let ?s0 = "s\<lparr>recursing := True\<rparr>"
  let ?s1 = "snd (getComputedHash w primary ?s0)"
  let ?s2 = "snd (getComputedHash w secondary ?s1)"
  have r2: "recursing ?s2" by (simp add: recursing_getComputedHash)
  have inner: "onFileChanged wBefore pathBefore ?s2 = ?s2"
    using r2 by (rule onFileChanged_recursing)
  have "recursing (cb oh nh ?s2)" for oh nh using a r2 by blast
  then have outer: "onFileChanged wAfter pathAfter (cb oh nh ?s2) = cb oh nh ?s2" for oh nh
    by (rule onFileChanged_recursing)
  have same: "withFileChanges wBefore pathBefore wAfter pathAfter cb oh nh ?s2 = cb oh nh ?s2"
    for oh nh
    by (simp only: withFileChanges_def inner outer)
  show "checkHashes w primary secondary (withFileChanges wBefore pathBefore wAfter pathAfter cb) s
          = checkHashes w primary secondary cb s"
    using a by (simp add: checkHashes_def DROP_RECURSIVE_CALLS_def Let_def split_beta same)
qed

text \<open>
  The lockfile changed from \<open>A\<close> to \<open>A2\<close>. Delivered on its own, the lockfile event stores
  \<open>A2\<close>; delivered from inside a lockfile pass it changes nothing.
\<close>

theorem nested_checkHashes_dropped_witness:
  "recursing (exampleState\<lparr>recursing := True\<rparr>)
   \<and> checkHashes (exampleWorld ''A2'' ''B'' (Inr [])) HASH_TYPE_LOCKFILE HASH_TYPE_LIBRARY
        (onLockfileUpdate (exampleWorld ''A2'' ''B'' (Inr []))) (exampleState\<lparr>recursing := True\<rparr>)
       = exampleState\<lparr>recursing := True\<rparr>
   \<and> onFileChanged (exampleWorld ''A2'' ''B'' (Inr [])) [''proj'', ''packrat'', ''packrat.lock'']
        (exampleState\<lparr>recursing := True\<rparr>) = exampleState\<lparr>recursing := True\<rparr>
   \<and> \<not> recursing exampleState
   \<and> getStoredHash HASH_TYPE_LOCKFILE
        (onFileChanged (exampleWorld ''A2'' ''B'' (Inr [])) [''proj'', ''packrat'', ''packrat.lock'']
           exampleState) = ''A2''
   \<and> checkHashes (exampleWorld ''A2'' ''B'' (Inr [])) HASH_TYPE_LOCKFILE HASH_TYPE_LIBRARY
        (withFileChanges
           (exampleWorld ''A2'' ''B'' (Inr [])) [''proj'', ''packrat'', ''packrat.lock'']
           (exampleWorld ''A2'' ''B'' (Inr [])) [''proj'', ''packrat'', ''lib'', ''pkg'', ''DESCRIPTION'']
           (onLockfileUpdate (exampleWorld ''A2'' ''B'' (Inr [])))) exampleState
       = checkHashes (exampleWorld ''A2'' ''B'' (Inr [])) HASH_TYPE_LOCKFILE HASH_TYPE_LIBRARY
           (onLockfileUpdate (exampleWorld ''A2'' ''B'' (Inr []))) exampleState"
proof -
  let ?w = "exampleWorld ''A2'' ''B'' (Inr [])"
  let ?held = "exampleState\<lparr>recursing := True\<rparr>"
  have h1: "recursing ?held" by simp
  have h2: "\<not> recursing exampleState" by (simp add: exampleState_def)
  have h3: "\<forall>oldHash newHash t. recursing t \<longrightarrow> recursing (onLockfileUpdate ?w oldHash newHash t)"
    by (simp add: onLockfileUpdate_recursing)
  have alone: "getStoredHash HASH_TYPE_LOCKFILE
        (onFileChanged ?w [''proj'', ''packrat'', ''packrat.lock''] exampleState) = ''A2''"
    by (simp add: example_defs)
  show ?thesis
    using h1 h2 h3 alone
      nested_checkHashes_dropped [of ?held ?w HASH_TYPE_LOCKFILE HASH_TYPE_LIBRARY
        "onLockfileUpdate ?w" "[''proj'', ''packrat'', ''packrat.lock'']"]
      nested_checkHashes_dropped [of exampleState ?w HASH_TYPE_LOCKFILE HASH_TYPE_LIBRARY
        "onLockfileUpdate ?w" "[''proj'', ''packrat'', ''packrat.lock'']"
        ?w "[''proj'', ''packrat'', ''packrat.lock'']"
        ?w "[''proj'', ''packrat'', ''lib'', ''pkg'', ''DESCRIPTION'']"]
    by blast
qed

subsection \<open>The lockfile-update handler\<close>

text \<open>
  C6. In a lockfile pass that reaches the handler (guard free, lockfile hash drifted,
  library hash not) and whose pending-restore-actions query succeeds: with a non-empty
  result the persistent store, and so the stored lockfile hash, is unchanged and exactly
  one restore-needed event carrying the converted actions is queued; with an empty result
  the stored lockfile hash becomes the newly computed hash and no event is queued.
\<close>

theorem restore_needed_gating:
  assumes "\<not> recursing s"
    and "getStoredHash HASH_TYPE_LOCKFILE s \<noteq> fst (computeLockfileHash w s)"
    and "getStoredHash HASH_TYPE_LIBRARY s = computeLibraryHash w"
    and "pendingRestoreActions w = Inr actions"
  shows "(actions \<noteq> [] \<longrightarrow>
            projectPersistent
              (checkHashes w HASH_TYPE_LOCKFILE HASH_TYPE_LIBRARY (onLockfileUpdate w) s) =
              projectPersistent s
          \<and> getStoredHash HASH_TYPE_LOCKFILE
              (checkHashes w HASH_TYPE_LOCKFILE HASH_TYPE_LIBRARY (onLockfileUpdate w) s) =
              getStoredHash HASH_TYPE_LOCKFILE s
          \<and> clientEvents
              (checkHashes w HASH_TYPE_LOCKFILE HASH_TYPE_LIBRARY (onLockfileUpdate w) s) =
              clientEvents s @ [kPackratRestoreNeeded (jsonValueFromObject w actions)])
     \<and> (actions = [] \<longrightarrow>
            getStoredHash HASH_TYPE_LOCKFILE
              (checkHashes w HASH_TYPE_LOCKFILE HASH_TYPE_LIBRARY (onLockfileUpdate w) s) =
              fst (computeLockfileHash w s)
          \<and> clientEvents
              (checkHashes w HASH_TYPE_LOCKFILE HASH_TYPE_LIBRARY (onLockfileUpdate w) s) =
              clientEvents s)"
  unfolding lockfile_pass [OF assms(1-3)] using assms(4)
  by (simp add: onLockfileUpdate_def computeLockfileHash_def LOG_ERROR_def enqueClientEvent_def
        getStoredHash_def setStoredHash_def getProjectPersistent_def putProjectPersistent_def
        keyOfHashType_def Let_def split: sum.splits)

theorem restore_needed_gating_witness:
  "\<not> recursing exampleState
   \<and> getStoredHash HASH_TYPE_LOCKFILE exampleState \<noteq>
       fst (computeLockfileHash (exampleWorld ''A2'' ''B'' (Inr [''restore pkg''])) exampleState)
   \<and> getStoredHash HASH_TYPE_LIBRARY exampleState =
       computeLibraryHash (exampleWorld ''A2'' ''B'' (Inr [''restore pkg'']))
   \<and> pendingRestoreActions (exampleWorld ''A2'' ''B'' (Inr [''restore pkg''])) = Inr [''restore pkg'']
   \<and> getStoredHash HASH_TYPE_LOCKFILE
        (checkHashes (exampleWorld ''A2'' ''B'' (Inr [''restore pkg'']))
           HASH_TYPE_LOCKFILE HASH_TYPE_LIBRARY
           (onLockfileUpdate (exampleWorld ''A2'' ''B'' (Inr [''restore pkg'']))) exampleState) = ''A''
   \<and> clientEvents
        (checkHashes (exampleWorld ''A2'' ''B'' (Inr [''restore pkg'']))
           HASH_TYPE_LOCKFILE HASH_TYPE_LIBRARY
           (onLockfileUpdate (exampleWorld ''A2'' ''B'' (Inr [''restore pkg'']))) exampleState) =
       [kPackratRestoreNeeded (JsonArray [JsonString ''restore pkg''])]
   \<and> getStoredHash HASH_TYPE_LOCKFILE exampleState \<noteq>
       fst (computeLockfileHash (exampleWorld ''A2'' ''B'' (Inr [])) exampleState)
   \<and> getStoredHash HASH_TYPE_LIBRARY exampleState =
       computeLibraryHash (exampleWorld ''A2'' ''B'' (Inr []))
   \<and> pendingRestoreActions (exampleWorld ''A2'' ''B'' (Inr [])) = Inr []
   \<and> getStoredHash HASH_TYPE_LOCKFILE
        (checkHashes (exampleWorld ''A2'' ''B'' (Inr []))
           HASH_TYPE_LOCKFILE HASH_TYPE_LIBRARY
           (onLockfileUpdate (exampleWorld ''A2'' ''B'' (Inr []))) exampleState) = ''A2''
   \<and> clientEvents
        (checkHashes (exampleWorld ''A2'' ''B'' (Inr []))
           HASH_TYPE_LOCKFILE HASH_TYPE_LIBRARY
           (onLockfileUpdate (exampleWorld ''A2'' ''B'' (Inr []))) exampleState) = []"
proof -
  let ?wr = "exampleWorld ''A2'' ''B'' (Inr [''restore pkg''])"
  let ?we = "exampleWorld ''A2'' ''B'' (Inr [])"
  have g: "\<not> recursing exampleState" by (simp add: exampleState_def)
  have r1: "getStoredHash HASH_TYPE_LOCKFILE exampleState \<noteq> fst (computeLockfileHash ?wr exampleState)"
    by (simp add: example_defs)
  have r2: "getStoredHash HASH_TYPE_LIBRARY exampleState = computeLibraryHash ?wr"
    by (simp add: example_defs)
  have r3: "pendingRestoreActions ?wr = Inr [''restore pkg'']"
    by (simp add: exampleWorld_def)
  have e1: "getStoredHash HASH_TYPE_LOCKFILE exampleState \<noteq> fst (computeLockfileHash ?we exampleState)"
    by (simp add: example_defs)
  have e2: "getStoredHash HASH_TYPE_LIBRARY exampleState = computeLibraryHash ?we"
    by (simp add: example_defs)
  have e3: "pendingRestoreActions ?we = Inr []"
    by (simp add: exampleWorld_def)
  have v1: "getStoredHash HASH_TYPE_LOCKFILE exampleState = ''A''"
    by (simp add: example_defs)
  have v2: "fst (computeLockfileHash ?we exampleState) = ''A2''"
    by (simp add: example_defs)
  have v3: "clientEvents exampleState = []"
    by (simp add: exampleState_def)
  have v4: "jsonValueFromObject ?wr [''restore pkg''] = JsonArray [JsonString ''restore pkg'']"
    by (simp add: exampleWorld_def)
  show ?thesis
    using g r1 r2 r3 e1 e2 e3
      restore_needed_gating [OF g r1 r2 r3] restore_needed_gating [OF g e1 e2 e3]
    by (simp add: v1 v2 v3 v4)
qed

text \<open>
  C1, as stated, fails. Stored hashes \<open>A\<close> and \<open>B\<close>, the lockfile now hashes to \<open>A2\<close>, the
  library still to \<open>B\<close>, and the pending-restore-actions query fails: after the pass the
  stored lockfile hash is still \<open>A\<close>, whereas with an empty query result it is \<open>A2\<close>.
\<close>

theorem query_failure_not_as_empty_counterexample:
  "\<not> recursing exampleState
   \<and> getStoredHash HASH_TYPE_LOCKFILE exampleState = ''A''
   \<and> fst (computeLockfileHash (exampleWorld ''A2'' ''B'' (Inl (Error ''R error''))) exampleState) = ''A2''
   \<and> getStoredHash HASH_TYPE_LIBRARY exampleState =
       computeLibraryHash (exampleWorld ''A2'' ''B'' (Inl (Error ''R error'')))
   \<and> pendingRestoreActions (exampleWorld ''A2'' ''B'' (Inl (Error ''R error''))) =
       Inl (Error ''R error'')
   \<and> getStoredHash HASH_TYPE_LOCKFILE
        (checkHashes (exampleWorld ''A2'' ''B'' (Inl (Error ''R error'')))
           HASH_TYPE_LOCKFILE HASH_TYPE_LIBRARY
           (onLockfileUpdate (exampleWorld ''A2'' ''B'' (Inl (Error ''R error'')))) exampleState) = ''A''
   \<and> getStoredHash HASH_TYPE_LOCKFILE
        (checkHashes (exampleWorld ''A2'' ''B'' (Inr []))
           HASH_TYPE_LOCKFILE HASH_TYPE_LIBRARY
           (onLockfileUpdate (exampleWorld ''A2'' ''B'' (Inr []))) exampleState) = ''A2''"
  by (simp add: example_defs)

text \<open>
  C1, amended. In a lockfile pass that reaches the handler (guard free, lockfile hash
  drifted, library hash not), if the pending-restore-actions query fails, the failure is
  logged and the handler returns: the persistent store, and so the stored lockfile hash,
  is unchanged, no client event is queued and no process is started.
\<close>

theorem query_failure_logged_and_returns:
  assumes "\<not> recursing s"
    and "getStoredHash HASH_TYPE_LOCKFILE s \<noteq> fst (computeLockfileHash w s)"
    and "getStoredHash HASH_TYPE_LIBRARY s = computeLibraryHash w"
    and "pendingRestoreActions w = Inl error"
  shows "errorLog (checkHashes w HASH_TYPE_LOCKFILE HASH_TYPE_LIBRARY (onLockfileUpdate w) s) =
           errorLog (snd (computeLockfileHash w s)) @ [error]
     \<and> projectPersistent
           (checkHashes w HASH_TYPE_LOCKFILE HASH_TYPE_LIBRARY (onLockfileUpdate w) s) =
           projectPersistent s
     \<and> getStoredHash HASH_TYPE_LOCKFILE
           (checkHashes w HASH_TYPE_LOCKFILE HASH_TYPE_LIBRARY (onLockfileUpdate w) s) =
           getStoredHash HASH_TYPE_LOCKFILE s
     \<and> clientEvents (checkHashes w HASH_TYPE_LOCKFILE HASH_TYPE_LIBRARY (onLockfileUpdate w) s) =
           clientEvents s
     \<and> startedProcesses
           (checkHashes w HASH_TYPE_LOCKFILE HASH_TYPE_LIBRARY (onLockfileUpdate w) s) =
           startedProcesses s"
  unfolding lockfile_pass [OF assms(1-3)] using assms(4)
  by (simp add: onLockfileUpdate_def computeLockfileHash_def LOG_ERROR_def
        getStoredHash_def getProjectPersistent_def Let_def split: sum.splits)

theorem query_failure_logged_and_returns_witness:
  "\<not> recursing exampleState
   \<and> getStoredHash HASH_TYPE_LOCKFILE exampleState \<noteq>
       fst (computeLockfileHash (exampleWorld ''A2'' ''B'' (Inl (Error ''R error''))) exampleState)
   \<and> getStoredHash HASH_TYPE_LIBRARY exampleState =
       computeLibraryHash (exampleWorld ''A2'' ''B'' (Inl (Error ''R error'')))
   \<and> pendingRestoreActions (exampleWorld ''A2'' ''B'' (Inl (Error ''R error''))) =
       Inl (Error ''R error'')
   \<and> errorLog
        (checkHashes (exampleWorld ''A2'' ''B'' (Inl (Error ''R error'')))
           HASH_TYPE_LOCKFILE HASH_TYPE_LIBRARY
           (onLockfileUpdate (exampleWorld ''A2'' ''B'' (Inl (Error ''R error'')))) exampleState) =
       [Error ''R error'']
   \<and> getStoredHash HASH_TYPE_LOCKFILE
        (checkHashes (exampleWorld ''A2'' ''B'' (Inl (Error ''R error'')))
           HASH_TYPE_LOCKFILE HASH_TYPE_LIBRARY
           (onLockfileUpdate (exampleWorld ''A2'' ''B'' (Inl (Error ''R error'')))) exampleState) = ''A''
   \<and> clientEvents
        (checkHashes (exampleWorld ''A2'' ''B'' (Inl (Error ''R error'')))
           HASH_TYPE_LOCKFILE HASH_TYPE_LIBRARY
           (onLockfileUpdate (exampleWorld ''A2'' ''B'' (Inl (Error ''R error'')))) exampleState) = []"
proof -
  let ?w = "exampleWorld ''A2'' ''B'' (Inl (Error ''R error''))"
  have g: "\<not> recursing exampleState" by (simp add: exampleState_def)
  have h1: "getStoredHash HASH_TYPE_LOCKFILE exampleState \<noteq> fst (computeLockfileHash ?w exampleState)"
    by (simp add: example_defs)
  have h2: "getStoredHash HASH_TYPE_LIBRARY exampleState = computeLibraryHash ?w"
    by (simp add: example_defs)
  have h3: "pendingRestoreActions ?w = Inl (Error ''R error'')"
    by (simp add: exampleWorld_def)
  have v1: "getStoredHash HASH_TYPE_LOCKFILE exampleState = ''A''"
    by (simp add: example_defs)
  have v2: "errorLog (snd (computeLockfileHash ?w exampleState)) = []"
    by (simp add: example_defs)
  have v3: "clientEvents exampleState = []"
    by (simp add: exampleState_def)
  show ?thesis
    using g h1 h2 h3 query_failure_logged_and_returns [OF g h1 h2 h3]
    by (simp add: v1 v2 v3)
qed

subsection \<open>The file-change router\<close>

text \<open>
  C2, as stated, fails. A file named \<open>packrat.lock\<close> in another directory of the project
  is not the project's lockfile \<open>proj/packrat/packrat.lock\<close>, yet its event takes the
  lockfile branch and runs the lockfile pass, which here moves the stored lockfile hash
  from \<open>A\<close> to \<open>A2\<close>.
\<close>

theorem lockfile_dispatch_other_path_counterexample:
  "[''proj'', ''notes'', ''packrat.lock''] \<noteq>
     complete (projectDirectory (exampleWorld ''A2'' ''B'' (Inr []))) [''packrat'', ''packrat.lock'']
   \<and> onFileChanged_branch (exampleWorld ''A2'' ''B'' (Inr [])) [''proj'', ''notes'', ''packrat.lock'']
       = CheckLockfile
   \<and> onFileChanged (exampleWorld ''A2'' ''B'' (Inr [])) [''proj'', ''notes'', ''packrat.lock'']
        exampleState
       = checkHashes (exampleWorld ''A2'' ''B'' (Inr [])) HASH_TYPE_LOCKFILE HASH_TYPE_LIBRARY
           (onLockfileUpdate (exampleWorld ''A2'' ''B'' (Inr []))) exampleState
   \<and> getStoredHash HASH_TYPE_LOCKFILE exampleState = ''A''
   \<and> getStoredHash HASH_TYPE_LOCKFILE
        (onFileChanged (exampleWorld ''A2'' ''B'' (Inr [])) [''proj'', ''notes'', ''packrat.lock'']
           exampleState) = ''A2''"
  by (simp add: example_defs)

text \<open>
  C2, amended. The lockfile pass (primary LOCKFILE, secondary LIBRARY, the lockfile-update
  handler) is dispatched exactly when the file name of the event's path is
  \<open>packrat.lock\<close>, in whatever directory; the project's lockfile path is one such path.
  An event whose file name is different never dispatches it: such an event takes another
  branch, and what \<open>onFileChanged\<close> then does is nothing at all or the library pass
  (primary LIBRARY, secondary LOCKFILE, the library-update handler).
\<close>

theorem lockfile_dispatch_by_filename:
  "(onFileChanged_branch w sourceFilePath = CheckLockfile) =
     (filename sourceFilePath = ''packrat.lock'')
   \<and> (filename sourceFilePath = ''packrat.lock'' \<longrightarrow>
        onFileChanged w sourceFilePath s =
          checkHashes w HASH_TYPE_LOCKFILE HASH_TYPE_LIBRARY (onLockfileUpdate w) s)
   \<and> (filename sourceFilePath \<noteq> ''packrat.lock'' \<longrightarrow>
        onFileChanged w sourceFilePath s = s
        \<or> onFileChanged w sourceFilePath s =
            checkHashes w HASH_TYPE_LIBRARY HASH_TYPE_LOCKFILE (onLibraryUpdate w) s)
   \<and> onFileChanged_branch w (complete (projectDirectory w) [''packrat'', ''packrat.lock''])
       = CheckLockfile"
  by (simp add: onFileChanged_def onFileChanged_branch_def Let_def filename_def complete_def)

text \<open>
  The lockfile changed from \<open>A\<close> to \<open>A2\<close>. The event for the project's lockfile runs the
  lockfile pass; the events for a DESCRIPTION file of the library and for \<open>proj/README\<close>
  do not, and leave the stored lockfile hash at \<open>A\<close>.
\<close>

theorem lockfile_dispatch_by_filename_witness:
  "filename [''proj'', ''packrat'', ''packrat.lock''] = ''packrat.lock''
   \<and> onFileChanged_branch (exampleWorld ''A2'' ''B'' (Inr [])) [''proj'', ''packrat'', ''packrat.lock'']
       = CheckLockfile
   \<and> onFileChanged (exampleWorld ''A2'' ''B'' (Inr [])) [''proj'', ''packrat'', ''packrat.lock'']
        exampleState
       = checkHashes (exampleWorld ''A2'' ''B'' (Inr [])) HASH_TYPE_LOCKFILE HASH_TYPE_LIBRARY
           (onLockfileUpdate (exampleWorld ''A2'' ''B'' (Inr []))) exampleState
   \<and> filename [''proj'', ''packrat'', ''lib'', ''pkg'', ''DESCRIPTION''] \<noteq> ''packrat.lock''
   \<and> onFileChanged_branch (exampleWorld ''A2'' ''B'' (Inr []))
        [''proj'', ''packrat'', ''lib'', ''pkg'', ''DESCRIPTION''] \<noteq> CheckLockfile
   \<and> getStoredHash HASH_TYPE_LOCKFILE
        (onFileChanged (exampleWorld ''A2'' ''B'' (Inr []))
           [''proj'', ''packrat'', ''lib'', ''pkg'', ''DESCRIPTION''] exampleState) = ''A''
   \<and> filename [''proj'', ''README''] \<noteq> ''packrat.lock''
   \<and> getStoredHash HASH_TYPE_LOCKFILE
        (onFileChanged (exampleWorld ''A2'' ''B'' (Inr [])) [''proj'', ''README''] exampleState) = ''A''"
proof -
  let ?w = "exampleWorld ''A2'' ''B'' (Inr [])"
  let ?desc = "[''proj'', ''packrat'', ''lib'', ''pkg'', ''DESCRIPTION'']"
  let ?readme = "[''proj'', ''README'']"
  let ?libraryPass =
    "checkHashes ?w HASH_TYPE_LIBRARY HASH_TYPE_LOCKFILE (onLibraryUpdate ?w) exampleState"
  have f1: "filename [''proj'', ''packrat'', ''packrat.lock''] = ''packrat.lock''"
    by (simp add: filename_def)
  have f2: "filename ?desc \<noteq> ''packrat.lock''"
    by (simp add: filename_def)
  have f3: "filename ?readme \<noteq> ''packrat.lock''"
    by (simp add: filename_def)
  have v1: "getStoredHash HASH_TYPE_LOCKFILE exampleState = ''A''"
    by (simp add: example_defs)
  have v2: "getStoredHash HASH_TYPE_LOCKFILE ?libraryPass = ''A''"
    by (simp add: example_defs)
  have d2: "onFileChanged ?w ?desc exampleState = exampleState
            \<or> onFileChanged ?w ?desc exampleState = ?libraryPass"
    using f2 lockfile_dispatch_by_filename [of ?w ?desc exampleState] by blast
  have d3: "onFileChanged ?w ?readme exampleState = exampleState
            \<or> onFileChanged ?w ?readme exampleState = ?libraryPass"
    using f3 lockfile_dispatch_by_filename [of ?w ?readme exampleState] by blast
  have s2: "getStoredHash HASH_TYPE_LOCKFILE (onFileChanged ?w ?desc exampleState) = ''A''"
    using d2 v1 v2 by (elim disjE) (simp_all only:)
  have s3: "getStoredHash HASH_TYPE_LOCKFILE (onFileChanged ?w ?readme exampleState) = ''A''"
    using d3 v1 v2 by (elim disjE) (simp_all only:)
  show ?thesis
    using f1 f2 f3 s2 s3
      lockfile_dispatch_by_filename [of ?w "[''proj'', ''packrat'', ''packrat.lock'']" exampleState]
      lockfile_dispatch_by_filename [of ?w ?desc exampleState]
    by blast
qed

subsection \<open>The snapshot scheduler\<close>

text \<open>Incrementing a non-negative counter below \<^verbatim>\<open>INT_MAX\<close> gives a positive counter.\<close>

lemma pendingSnapshots_incr_pos:
  "0 \<le>s (x :: 32 word) \<Longrightarrow> x \<noteq> 0x7FFFFFFF \<Longrightarrow> 0 <s x + 1"
proof -
  assume a: "0 \<le>s x" and b: "x \<noteq> 0x7FFFFFFF"
  have lo: "0 \<le> sint x" using a by (simp add: word_sle_eq)
  have hi: "sint x < 2 ^ 31" using sint_lt [of x] by simp
  have ne: "sint x \<noteq> 2147483647"
  proof
    assume "sint x = 2147483647"
    then have "word_of_int (sint x) = (word_of_int 2147483647 :: 32 word)" by simp
    then show False using b by simp
  qed
  have "sint (x + 1) = sint x + 1"
    using lo hi ne by (simp add: sint_word_ariths signed_take_bit_int_eq_self)
  then show ?thesis using lo by (simp add: word_sless_alt)
qed

text \<open>A request while nothing is running starts a process for the requested target.\<close>

lemma performAutoSnapshot_idle:
  assumes "\<forall>p. pAutoSnapshot s = Some p \<longrightarrow> \<not> isRunning p"
  shows "pAutoSnapshot (performAutoSnapshot w h s) =
           Some \<lparr>targetHash = h, isRunning = processStarts w\<rparr>"
    and "startedProcesses (performAutoSnapshot w h s) =
           startedProcesses s @ [(snapshotCmd w, projectDirectory w, h)]"
    and "pendingSnapshots (performAutoSnapshot w h s) = pendingSnapshots s"
    and "projectPersistent (performAutoSnapshot w h s) = projectPersistent s"
    and "clientEvents (performAutoSnapshot w h s) = clientEvents s"
    and "recursing (performAutoSnapshot w h s) = recursing s"
  using assms
  by (auto simp: performAutoSnapshot.simps create_def start_def LOG_ERROR_def snapshotCmd_def
        Let_def split: option.splits sum.splits)

lemma performAutoSnapshot_same_target:
  assumes "pAutoSnapshot s = Some p" "isRunning p" "targetHash p = h"
  shows "performAutoSnapshot w h s = s"
  using assms by (simp add: performAutoSnapshot.simps)

lemma performAutoSnapshot_other_target:
  assumes "pAutoSnapshot s = Some p" "isRunning p" "targetHash p \<noteq> h"
  shows "performAutoSnapshot w h s = s\<lparr>pendingSnapshots := pendingSnapshots s + 1\<rparr>"
  using assms by (simp add: performAutoSnapshot.simps)

lemma onLibraryUpdate_recursing:
  "recursing (onLibraryUpdate w oldHash newHash s) = recursing s"
  by (auto simp: onLibraryUpdate_def performAutoSnapshot.simps create_def start_def
        LOG_ERROR_def Let_def split: option.splits sum.splits)

text \<open>A successful exit with requests queued starts the follow-up.\<close>

lemma onProcessCompleted_queued:
  assumes "0 <s pendingSnapshots s"
  shows "startedProcesses (onProcessCompleted w 0 s) =
           startedProcesses s @ [(snapshotCmd w, projectDirectory w, computeLibraryHash w)]"
    and "pAutoSnapshot (onProcessCompleted w 0 s) =
           Some \<lparr>targetHash = computeLibraryHash w, isRunning = processStarts w\<rparr>"
    and "pendingSnapshots (onProcessCompleted w 0 s) = 0"
    and "projectPersistent (onProcessCompleted w 0 s) = projectPersistent s"
    and "clientEvents (onProcessCompleted w 0 s) = clientEvents s"
proof -
  let ?s0 = "s\<lparr>pAutoSnapshot := map_option (\<lambda>p. p\<lparr>isRunning := False\<rparr>) (pAutoSnapshot s),
                pendingSnapshots := 0\<rparr>"
  have eq: "onProcessCompleted w 0 s = performAutoSnapshot w (computeLibraryHash w) ?s0"
    using assms by (simp add: onProcessCompleted_def onCompleted_def)
  have idle: "\<forall>p. pAutoSnapshot ?s0 = Some p \<longrightarrow> \<not> isRunning p" by auto
  show "startedProcesses (onProcessCompleted w 0 s) =
           startedProcesses s @ [(snapshotCmd w, projectDirectory w, computeLibraryHash w)]"
    unfolding eq performAutoSnapshot_idle(2) [OF idle] by simp
  show "pAutoSnapshot (onProcessCompleted w 0 s) =
           Some \<lparr>targetHash = computeLibraryHash w, isRunning = processStarts w\<rparr>"
    unfolding eq performAutoSnapshot_idle(1) [OF idle] by simp
  show "pendingSnapshots (onProcessCompleted w 0 s) = 0"
    unfolding eq performAutoSnapshot_idle(3) [OF idle] by simp
  show "projectPersistent (onProcessCompleted w 0 s) = projectPersistent s"
    unfolding eq performAutoSnapshot_idle(4) [OF idle] by simp
  show "clientEvents (onProcessCompleted w 0 s) = clientEvents s"
    unfolding eq performAutoSnapshot_idle(5) [OF idle] by simp
qed

text \<open>
  C5. While a snapshot towards \<open>h1\<close> is running, a request for the same target \<open>h1\<close>
  leaves the state as it is: no process is started and the pending count is not
  incremented. So two requests for \<open>h1\<close>, the first made while nothing is running and
  getting its process started, start exactly one process between them and leave the
  pending count alone.
\<close>

theorem duplicate_request_absorbed:
  "(pAutoSnapshot s = Some p \<and> isRunning p \<and> targetHash p = h1
      \<longrightarrow> performAutoSnapshot w h1 s = s)
   \<and> ((\<forall>p. pAutoSnapshot s = Some p \<longrightarrow> \<not> isRunning p) \<and> processStarts w
      \<longrightarrow> performAutoSnapshot w' h1 (performAutoSnapshot w h1 s) = performAutoSnapshot w h1 s
        \<and> startedProcesses (performAutoSnapshot w' h1 (performAutoSnapshot w h1 s)) =
            startedProcesses s @ [(snapshotCmd w, projectDirectory w, h1)]
        \<and> pendingSnapshots (performAutoSnapshot w' h1 (performAutoSnapshot w h1 s)) =
            pendingSnapshots s)"
proof (intro conjI impI)
  assume "pAutoSnapshot s = Some p \<and> isRunning p \<and> targetHash p = h1"
  then show "performAutoSnapshot w h1 s = s" by (simp add: performAutoSnapshot.simps)
next
  assume a: "(\<forall>p. pAutoSnapshot s = Some p \<longrightarrow> \<not> isRunning p) \<and> processStarts w"
  let ?s1 = "performAutoSnapshot w h1 s"
  have p1: "pAutoSnapshot ?s1 = Some \<lparr>targetHash = h1, isRunning = True\<rparr>"
    using a performAutoSnapshot_idle(1) [of s w h1] by simp
  show second: "performAutoSnapshot w' h1 ?s1 = ?s1"
    by (rule performAutoSnapshot_same_target [OF p1]) simp_all
  show "startedProcesses (performAutoSnapshot w' h1 ?s1) =
            startedProcesses s @ [(snapshotCmd w, projectDirectory w, h1)]"
    unfolding second using a performAutoSnapshot_idle(2) [of s w h1] by simp
  show "pendingSnapshots (performAutoSnapshot w' h1 ?s1) = pendingSnapshots s"
    unfolding second using a performAutoSnapshot_idle(3) [of s w h1] by simp
qed

theorem duplicate_request_absorbed_witness:
  "pAutoSnapshot runningState = Some \<lparr>targetHash = ''B2'', isRunning = True\<rparr>
   \<and> isRunning \<lparr>targetHash = ''B2'', isRunning = True\<rparr>
   \<and> targetHash \<lparr>targetHash = ''B2'', isRunning = True\<rparr> = ''B2''
   \<and> performAutoSnapshot (exampleWorld ''A'' ''B2'' (Inr [])) ''B2'' runningState = runningState
   \<and> pAutoSnapshot exampleState = None
   \<and> processStarts (exampleWorld ''A'' ''B2'' (Inr []))
   \<and> startedProcesses
        (performAutoSnapshot (exampleWorld ''A'' ''B2'' (Inr [])) ''B2''
           (performAutoSnapshot (exampleWorld ''A'' ''B2'' (Inr [])) ''B2'' exampleState)) =
       [(''packrat::snapshot()'', [''proj''], ''B2'')]
   \<and> pendingSnapshots
        (performAutoSnapshot (exampleWorld ''A'' ''B2'' (Inr [])) ''B2''
           (performAutoSnapshot (exampleWorld ''A'' ''B2'' (Inr [])) ''B2'' exampleState)) = 0"
proof -
  let ?w = "exampleWorld ''A'' ''B2'' (Inr [])"
  let ?p = "\<lparr>targetHash = ''B2'', isRunning = True\<rparr>"
  have h1: "pAutoSnapshot runningState = Some ?p \<and> isRunning ?p \<and> targetHash ?p = ''B2''"
    by (simp add: runningState_def)
  have n: "pAutoSnapshot exampleState = None"
    by (simp add: exampleState_def)
  have h2: "(\<forall>p. pAutoSnapshot exampleState = Some p \<longrightarrow> \<not> isRunning p) \<and> processStarts ?w"
    by (simp add: exampleState_def exampleWorld_def)
  have v: "startedProcesses exampleState = []" "pendingSnapshots exampleState = 0"
    "snapshotCmd ?w = ''packrat::snapshot()''" "projectDirectory ?w = [''proj'']"
    by (simp_all add: exampleState_def exampleWorld_def snapshotCmd_def)
  have first: "performAutoSnapshot ?w ''B2'' runningState = runningState"
    using h1 duplicate_request_absorbed [of runningState ?p "''B2''" ?w ?w] by blast
  have both:
    "startedProcesses (performAutoSnapshot ?w ''B2'' (performAutoSnapshot ?w ''B2'' exampleState)) =
       startedProcesses exampleState @ [(snapshotCmd ?w, projectDirectory ?w, ''B2'')]
     \<and> pendingSnapshots (performAutoSnapshot ?w ''B2'' (performAutoSnapshot ?w ''B2'' exampleState)) =
       pendingSnapshots exampleState"
    using h2 duplicate_request_absorbed [of exampleState ?p "''B2''" ?w ?w] by blast
  show ?thesis
    using h1 n h2 first both by (simp only: v append_Nil simp_thms)
qed

text \<open>
  C4. A snapshot towards \<open>h1\<close> is running, with a pending count that is non-negative and
  below \<^verbatim>\<open>INT_MAX\<close> (it starts at zero and is only ever incremented or reset to zero). A
  request for another target \<open>h2\<close> increments the count and starts nothing. When the
  running process then exits with status zero, exactly one process is started, its target
  is the library hash computed in the world of the completion (\<open>w2\<close>), whatever \<open>h2\<close> was,
  and the pending count is zero.
\<close>

theorem queued_request_follow_up:
  assumes "pAutoSnapshot s = Some p" and "isRunning p" and "targetHash p = h1" and "h2 \<noteq> h1"
    and "0 \<le>s pendingSnapshots s" and "pendingSnapshots s \<noteq> 0x7FFFFFFF"
  shows "pendingSnapshots (performAutoSnapshot w1 h2 s) = pendingSnapshots s + 1
     \<and> startedProcesses (performAutoSnapshot w1 h2 s) = startedProcesses s
     \<and> startedProcesses (onProcessCompleted w2 0 (performAutoSnapshot w1 h2 s)) =
         startedProcesses s @ [(snapshotCmd w2, projectDirectory w2, computeLibraryHash w2)]
     \<and> pAutoSnapshot (onProcessCompleted w2 0 (performAutoSnapshot w1 h2 s)) =
         Some \<lparr>targetHash = computeLibraryHash w2, isRunning = processStarts w2\<rparr>
     \<and> pendingSnapshots (onProcessCompleted w2 0 (performAutoSnapshot w1 h2 s)) = 0"
proof -
  let ?s1 = "performAutoSnapshot w1 h2 s"
  have s1: "?s1 = s\<lparr>pendingSnapshots := pendingSnapshots s + 1\<rparr>"
    using assms(1-4) by (intro performAutoSnapshot_other_target) auto
  have pos: "0 <s pendingSnapshots ?s1"
    unfolding s1 using assms(5,6) by (simp add: pendingSnapshots_incr_pos)
  show ?thesis
    using onProcessCompleted_queued [OF pos, of w2] by (simp add: s1)
qed

text \<open>
  A snapshot towards \<open>B2\<close> is running; a request for \<open>B3\<close> is queued; when the run
  exits with status zero the library hashes to \<open>B4\<close>, and the follow-up targets \<open>B4\<close>.
\<close>

theorem queued_request_follow_up_witness:
  "pAutoSnapshot runningState = Some \<lparr>targetHash = ''B2'', isRunning = True\<rparr>
   \<and> isRunning \<lparr>targetHash = ''B2'', isRunning = True\<rparr>
   \<and> targetHash \<lparr>targetHash = ''B2'', isRunning = True\<rparr> = ''B2''
   \<and> ''B3'' \<noteq> ''B2''
   \<and> 0 \<le>s pendingSnapshots runningState
   \<and> pendingSnapshots runningState \<noteq> 0x7FFFFFFF
   \<and> pendingSnapshots
        (performAutoSnapshot (exampleWorld ''A'' ''B3'' (Inr [])) ''B3'' runningState) = 1
   \<and> startedProcesses
        (performAutoSnapshot (exampleWorld ''A'' ''B3'' (Inr [])) ''B3'' runningState) = []
   \<and> startedProcesses
        (onProcessCompleted (exampleWorld ''A'' ''B4'' (Inr [])) 0
           (performAutoSnapshot (exampleWorld ''A'' ''B3'' (Inr [])) ''B3'' runningState)) =
       [(''packrat::snapshot()'', [''proj''], ''B4'')]
   \<and> pAutoSnapshot
        (onProcessCompleted (exampleWorld ''A'' ''B4'' (Inr [])) 0
           (performAutoSnapshot (exampleWorld ''A'' ''B3'' (Inr [])) ''B3'' runningState)) =
       Some \<lparr>targetHash = ''B4'', isRunning = True\<rparr>
   \<and> pendingSnapshots
        (onProcessCompleted (exampleWorld ''A'' ''B4'' (Inr [])) 0
           (performAutoSnapshot (exampleWorld ''A'' ''B3'' (Inr [])) ''B3'' runningState)) = 0"
proof -
  let ?w1 = "exampleWorld ''A'' ''B3'' (Inr [])"
  let ?w2 = "exampleWorld ''A'' ''B4'' (Inr [])"
  let ?p = "\<lparr>targetHash = ''B2'', isRunning = True\<rparr>"
  have h1: "pAutoSnapshot runningState = Some ?p" by (simp add: runningState_def)
  have h2: "isRunning ?p" by simp
  have h3: "targetHash ?p = ''B2''" by simp
  have h4: "''B3'' \<noteq> ''B2''" by simp
  have h5: "0 \<le>s pendingSnapshots runningState" by (simp add: runningState_def exampleState_def)
  have h6: "pendingSnapshots runningState \<noteq> 0x7FFFFFFF"
    by (simp add: runningState_def exampleState_def)
  have v: "startedProcesses runningState = []" "pendingSnapshots runningState + 1 = 1"
    "snapshotCmd ?w2 = ''packrat::snapshot()''" "projectDirectory ?w2 = [''proj'']"
    "computeLibraryHash ?w2 = ''B4''" "processStarts ?w2 = True"
    by (simp_all add: example_defs)
  show ?thesis
    using h1 h2 h3 h4 h5 h6 queued_request_follow_up [OF h1 h2 h3 h4 h5 h6, of ?w1 ?w2]
    by (simp only: v append_Nil simp_thms)
qed

text \<open>
  C7. When the snapshot process exits with status zero and the pending count is zero, the
  stored library and lockfile hashes become the hashes computed in the world of the
  completion, one installed-packages-changed event is queued, and no process is started.
  This holds of the callback \<open>onCompleted\<close> in any state, and so of the exit of the
  process as \<open>onProcessCompleted\<close> delivers it.
\<close>

theorem snapshot_completed_in_sync:
  assumes "pendingSnapshots s = 0"
  shows "getStoredHash HASH_TYPE_LIBRARY (onCompleted w 0 s) = computeLibraryHash w
     \<and> getStoredHash HASH_TYPE_LOCKFILE (onCompleted w 0 s) = fst (computeLockfileHash w s)
     \<and> clientEvents (onCompleted w 0 s) = clientEvents s @ [kInstalledPackagesChanged]
     \<and> startedProcesses (onCompleted w 0 s) = startedProcesses s
     \<and> pAutoSnapshot (onCompleted w 0 s) = pAutoSnapshot s
     \<and> pendingSnapshots (onCompleted w 0 s) = 0
     \<and> getStoredHash HASH_TYPE_LIBRARY (onProcessCompleted w 0 s) = computeLibraryHash w
     \<and> getStoredHash HASH_TYPE_LOCKFILE (onProcessCompleted w 0 s) = fst (computeLockfileHash w s)
     \<and> clientEvents (onProcessCompleted w 0 s) = clientEvents s @ [kInstalledPackagesChanged]
     \<and> startedProcesses (onProcessCompleted w 0 s) = startedProcesses s
     \<and> pendingSnapshots (onProcessCompleted w 0 s) = 0"
  using assms
  by (simp add: onProcessCompleted_def onCompleted_def Let_def split_beta enqueClientEvent_def
        computeLockfileHash_def LOG_ERROR_def
        getStoredHash_def setStoredHash_def getProjectPersistent_def
        putProjectPersistent_def keyOfHashType_def split: sum.splits)

theorem snapshot_completed_in_sync_witness:
  "pendingSnapshots runningState = 0
   \<and> getStoredHash HASH_TYPE_LIBRARY
        (onProcessCompleted (exampleWorld ''A2'' ''B2'' (Inr [])) 0 runningState) = ''B2''
   \<and> getStoredHash HASH_TYPE_LOCKFILE
        (onProcessCompleted (exampleWorld ''A2'' ''B2'' (Inr [])) 0 runningState) = ''A2''
   \<and> clientEvents
        (onProcessCompleted (exampleWorld ''A2'' ''B2'' (Inr [])) 0 runningState) =
       [kInstalledPackagesChanged]
   \<and> startedProcesses
        (onProcessCompleted (exampleWorld ''A2'' ''B2'' (Inr [])) 0 runningState) = []"
proof -
  let ?w = "exampleWorld ''A2'' ''B2'' (Inr [])"
  have h: "pendingSnapshots runningState = 0" by (simp add: runningState_def exampleState_def)
  have v: "computeLibraryHash ?w = ''B2''" "fst (computeLockfileHash ?w runningState) = ''A2''"
    "clientEvents runningState = []" "startedProcesses runningState = []"
    by (simp_all add: example_defs)
  show ?thesis
    using h snapshot_completed_in_sync [OF h, of ?w] by (simp only: v append_Nil simp_thms)
qed

text \<open>
  C8. When the snapshot process exits with a non-zero status, the callback \<open>onCompleted\<close>
  returns the state as it was. The exit of the process as a whole leaves the persistent
  store, and so both stored hashes, unchanged, starts no process, queues no client event
  and logs nothing.
\<close>

theorem snapshot_failed_no_action:
  assumes "exitStatus \<noteq> 0"
  shows "onCompleted w exitStatus s = s
     \<and> projectPersistent (onProcessCompleted w exitStatus s) = projectPersistent s
     \<and> getStoredHash hashType (onProcessCompleted w exitStatus s) = getStoredHash hashType s
     \<and> startedProcesses (onProcessCompleted w exitStatus s) = startedProcesses s
     \<and> clientEvents (onProcessCompleted w exitStatus s) = clientEvents s
     \<and> errorLog (onProcessCompleted w exitStatus s) = errorLog s"
  using assms
  by (simp add: onCompleted_def onProcessCompleted_def getStoredHash_def getProjectPersistent_def)

theorem snapshot_failed_no_action_witness:
  "(1 :: int) \<noteq> 0
   \<and> onCompleted (exampleWorld ''A2'' ''B2'' (Inr [])) 1 runningState = runningState
   \<and> getStoredHash HASH_TYPE_LIBRARY
        (onProcessCompleted (exampleWorld ''A2'' ''B2'' (Inr [])) 1 runningState) = ''B''
   \<and> startedProcesses
        (onProcessCompleted (exampleWorld ''A2'' ''B2'' (Inr [])) 1 runningState) = []
   \<and> clientEvents
        (onProcessCompleted (exampleWorld ''A2'' ''B2'' (Inr [])) 1 runningState) = []"
proof -
  let ?w = "exampleWorld ''A2'' ''B2'' (Inr [])"
  have h: "(1 :: int) \<noteq> 0" by simp
  have v: "getStoredHash HASH_TYPE_LIBRARY runningState = ''B''"
    "clientEvents runningState = []" "startedProcesses runningState = []"
    by (simp_all add: example_defs)
  show ?thesis
    using h snapshot_failed_no_action [OF h, of ?w runningState HASH_TYPE_LIBRARY]
    by (simp only: v simp_thms)
qed

text \<open>
  C10. A non-zero exit leaves the pending count as it was. So with requests queued
  (a positive count) when the process fails, the count is still there when the next
  snapshot is started and, although no request arrives while that one runs, its exit with
  status zero starts a follow-up towards the library hash computed in the world of that
  completion (\<open>w3\<close>) and only then resets the count.
\<close>

theorem failed_snapshot_keeps_pending_count:
  assumes "exitStatus \<noteq> 0" and "0 <s pendingSnapshots s"
  shows "pendingSnapshots (onProcessCompleted w1 exitStatus s) = pendingSnapshots s
     \<and> pendingSnapshots (performAutoSnapshot w2 h (onProcessCompleted w1 exitStatus s)) =
         pendingSnapshots s
     \<and> startedProcesses (performAutoSnapshot w2 h (onProcessCompleted w1 exitStatus s)) =
         startedProcesses s @ [(snapshotCmd w2, projectDirectory w2, h)]
     \<and> startedProcesses (onProcessCompleted w3 0
          (performAutoSnapshot w2 h (onProcessCompleted w1 exitStatus s))) =
         startedProcesses s @ [(snapshotCmd w2, projectDirectory w2, h),
                               (snapshotCmd w3, projectDirectory w3, computeLibraryHash w3)]
     \<and> pAutoSnapshot (onProcessCompleted w3 0
          (performAutoSnapshot w2 h (onProcessCompleted w1 exitStatus s))) =
         Some \<lparr>targetHash = computeLibraryHash w3, isRunning = processStarts w3\<rparr>
     \<and> pendingSnapshots (onProcessCompleted w3 0
          (performAutoSnapshot w2 h (onProcessCompleted w1 exitStatus s))) = 0"
proof -
  let ?s1 = "onProcessCompleted w1 exitStatus s"
  let ?s2 = "performAutoSnapshot w2 h ?s1"
  have s1: "?s1 = s\<lparr>pAutoSnapshot := map_option (\<lambda>p. p\<lparr>isRunning := False\<rparr>) (pAutoSnapshot s)\<rparr>"
    using assms(1) by (simp add: onProcessCompleted_def onCompleted_def)
  have idle: "\<forall>p. pAutoSnapshot ?s1 = Some p \<longrightarrow> \<not> isRunning p"
    unfolding s1 by auto
  have c1: "pendingSnapshots ?s1 = pendingSnapshots s" unfolding s1 by simp
  have c2: "pendingSnapshots ?s2 = pendingSnapshots s"
    unfolding performAutoSnapshot_idle(3) [OF idle] by (rule c1)
  have st2: "startedProcesses ?s2 = startedProcesses s @ [(snapshotCmd w2, projectDirectory w2, h)]"
    unfolding performAutoSnapshot_idle(2) [OF idle] by (simp add: s1)
  have pos: "0 <s pendingSnapshots ?s2" unfolding c2 by (rule assms(2))
  show ?thesis
    using onProcessCompleted_queued [OF pos, of w3] c1 c2 st2 by simp
qed

text \<open>
  One request was queued while the snapshot towards \<open>B2\<close> ran; the run fails with status
  1; a snapshot towards \<open>B3\<close> is started later and exits with status zero when the library
  hashes to \<open>B4\<close>: a follow-up towards \<open>B4\<close> is started.
\<close>

theorem failed_snapshot_keeps_pending_count_witness:
  "(1 :: int) \<noteq> 0
   \<and> 0 <s pendingSnapshots (runningState\<lparr>pendingSnapshots := 1\<rparr>)
   \<and> pendingSnapshots
        (onProcessCompleted (exampleWorld ''A'' ''B3'' (Inr [])) 1
           (runningState\<lparr>pendingSnapshots := 1\<rparr>)) = 1
   \<and> startedProcesses
        (onProcessCompleted (exampleWorld ''A'' ''B4'' (Inr [])) 0
           (performAutoSnapshot (exampleWorld ''A'' ''B3'' (Inr [])) ''B3''
              (onProcessCompleted (exampleWorld ''A'' ''B3'' (Inr [])) 1
                 (runningState\<lparr>pendingSnapshots := 1\<rparr>)))) =
       [(''packrat::snapshot()'', [''proj''], ''B3''), (''packrat::snapshot()'', [''proj''], ''B4'')]
   \<and> pendingSnapshots
        (onProcessCompleted (exampleWorld ''A'' ''B4'' (Inr [])) 0
           (performAutoSnapshot (exampleWorld ''A'' ''B3'' (Inr [])) ''B3''
              (onProcessCompleted (exampleWorld ''A'' ''B3'' (Inr [])) 1
                 (runningState\<lparr>pendingSnapshots := 1\<rparr>)))) = 0"
proof -
  let ?w = "exampleWorld ''A'' ''B3'' (Inr [])"
  let ?w3 = "exampleWorld ''A'' ''B4'' (Inr [])"
  let ?s = "runningState\<lparr>pendingSnapshots := 1\<rparr>"
  have h1: "(1 :: int) \<noteq> 0" by simp
  have h2: "0 <s pendingSnapshots ?s" by (simp add: word_sless_alt)
  have v: "startedProcesses ?s = []" "pendingSnapshots ?s = 1"
    "snapshotCmd ?w = ''packrat::snapshot()''" "projectDirectory ?w = [''proj'']"
    "snapshotCmd ?w3 = ''packrat::snapshot()''" "projectDirectory ?w3 = [''proj'']"
    "computeLibraryHash ?w3 = ''B4''"
    by (simp_all add: example_defs)
  show ?thesis
    using h1 h2 failed_snapshot_keeps_pending_count [OF h1 h2, of ?w ?w "''B3''" ?w3]
    by (simp only: v append_Nil simp_thms)
qed

subsection \<open>Reachable states\<close>

text \<open>
  Between two events the guard is free, and after fewer than \<open>2^31 - 1\<close> events the
  pending count is non-negative and below \<^verbatim>\<open>INT_MAX\<close>: the hypotheses on the guard and on
  the count in the statements above hold in every state the session reaches that soon.
\<close>

lemma countStep_performAutoSnapshot: "countStep s (performAutoSnapshot w h s)"
  by (auto simp: countStep_def performAutoSnapshot.simps create_def start_def LOG_ERROR_def
        Let_def split: option.splits sum.splits)

lemma countStep_onLockfileUpdate: "countStep s (onLockfileUpdate w oh nh s)"
  by (simp add: countStep_def onLockfileUpdate_def LOG_ERROR_def setStoredHash_def
        putProjectPersistent_def enqueClientEvent_def split: sum.splits)

lemma countStep_onProcessCompleted: "countStep s (onProcessCompleted w e s)"
proof (cases "e \<noteq> 0 \<or> \<not> 0 <s pendingSnapshots s")
  case True
  then show ?thesis
    by (auto simp: countStep_def onProcessCompleted_def onCompleted_def Let_def split_beta
          enqueClientEvent_def computeLockfileHash_def LOG_ERROR_def
          setStoredHash_def putProjectPersistent_def split: sum.splits)
next
  case False
  then have e: "e = 0" and pos: "0 <s pendingSnapshots s" by auto
  let ?s0 = "s\<lparr>pAutoSnapshot := map_option (\<lambda>p. p\<lparr>isRunning := False\<rparr>) (pAutoSnapshot s),
                pendingSnapshots := 0\<rparr>"
  have eq: "onProcessCompleted w e s = performAutoSnapshot w (computeLibraryHash w) ?s0"
    using e pos by (simp add: onProcessCompleted_def onCompleted_def)
  have idle: "\<forall>p. pAutoSnapshot ?s0 = Some p \<longrightarrow> \<not> isRunning p" by auto
  show ?thesis
    unfolding eq countStep_def
    by (simp add: performAutoSnapshot_idle(3,6) [OF idle])
qed

lemma countStep_checkHashes:
  assumes cb: "\<And>oh nh t. countStep t (cb oh nh t)"
  shows "countStep s (checkHashes w p sec cb s)"
proof (cases "recursing s")
  case True
  then show ?thesis by (simp add: checkHashes_recursing countStep_def)
next
  case False
  let ?s0 = "s\<lparr>recursing := True\<rparr>"
  let ?s1 = "snd (getComputedHash w p ?s0)"
  let ?s2 = "snd (getComputedHash w sec ?s1)"
  obtain e1 where e1: "?s1 = ?s0\<lparr>errorLog := errorLog ?s0 @ e1\<rparr>"
    using getComputedHash_snd by blast
  obtain e2 where e2: "?s2 = ?s1\<lparr>errorLog := errorLog ?s1 @ e2\<rparr>"
    using getComputedHash_snd by blast
  have c2: "pendingSnapshots ?s2 = pendingSnapshots s"
    by (subst e2, subst e1) simp
  have c1: "pendingSnapshots ?s1 = pendingSnapshots s"
    by (subst e1) simp
  have cbs: "countStep ?s2 (cb oh nh ?s2)" for oh nh by (rule cb)
  have c4: "pendingSnapshots (snd (getComputedHash w sec t)) = pendingSnapshots t" for t
    using getComputedHash_snd [of w sec t] by auto
  show ?thesis
    using False cbs c1 c2
    by (auto simp: countStep_def checkHashes_def DROP_RECURSIVE_CALLS_def Let_def split_beta c4
          setStoredHash_def putProjectPersistent_def)
qed

lemma countStep_handleEvent: "countStep s (handleEvent e s)"
proof (cases e)
  case (Pair w ev)
  have lib: "countStep s (checkHashes w HASH_TYPE_LIBRARY HASH_TYPE_LOCKFILE (onLibraryUpdate w) s)"
    by (rule countStep_checkHashes) (simp add: onLibraryUpdate_def countStep_performAutoSnapshot)
  have lock: "countStep s (checkHashes w HASH_TYPE_LOCKFILE HASH_TYPE_LIBRARY (onLockfileUpdate w) s)"
    by (rule countStep_checkHashes) (rule countStep_onLockfileUpdate)
  have same: "countStep s s" by (simp add: countStep_def)
  show ?thesis
  proof (cases ev)
    case (FileChanged path)
    then show ?thesis using Pair lib lock same
      by (simp add: onFileChanged_def split: Dispatch.splits)
  next
    case PackageLibraryMutated
    then show ?thesis using Pair lib same
      by (simp add: onPackageLibraryMutated_def Let_def)
  next
    case (ProcessCompleted x)
    then show ?thesis using Pair by (simp add: countStep_onProcessCompleted)
  qed
qed

lemma countStep_bound:
  assumes "countStep s s'" and "0 \<le> sint (pendingSnapshots s)"
    and "sint (pendingSnapshots s) \<le> int n" and "n < 2147483647"
  shows "0 \<le> sint (pendingSnapshots s') \<and> sint (pendingSnapshots s') \<le> int (Suc n)"
proof -
  have "sint (pendingSnapshots s + 1) = sint (pendingSnapshots s) + 1"
    using assms(2-4) by (simp add: sint_word_ariths signed_take_bit_int_eq_self)
  then show ?thesis using assms by (auto simp: countStep_def)
qed

lemma runEvents_invariant:
  assumes "\<not> recursing s" and "0 \<le> sint (pendingSnapshots s)"
    and "sint (pendingSnapshots s) \<le> int n" and "n + length es < 2147483647"
  shows "\<not> recursing (runEvents es s)
       \<and> 0 \<le> sint (pendingSnapshots (runEvents es s))
       \<and> sint (pendingSnapshots (runEvents es s)) \<le> int (n + length es)"
  using assms
proof (induction es arbitrary: s n)
  case Nil
  then show ?case by simp
next
  case (Cons e es)
  have st: "countStep s (handleEvent e s)" by (rule countStep_handleEvent)
  have n: "n < 2147483647" using Cons.prems(4) by simp
  have b: "0 \<le> sint (pendingSnapshots (handleEvent e s)) \<and>
           sint (pendingSnapshots (handleEvent e s)) \<le> int (Suc n)"
    by (rule countStep_bound [OF st Cons.prems(2,3) n])
  have r: "\<not> recursing (handleEvent e s)" using st Cons.prems(1) by (simp add: countStep_def)
  have "Suc n + length es < 2147483647" using Cons.prems(4) by simp
  from Cons.IH [OF r conjunct1 [OF b] conjunct2 [OF b] this]
  show ?case by simp
qed

lemma reachable_state:
  assumes "length es < 2147483647"
  shows "\<not> recursing (runEvents es (initialState store))
       \<and> 0 \<le>s pendingSnapshots (runEvents es (initialState store))
       \<and> pendingSnapshots (runEvents es (initialState store)) \<noteq> 0x7FFFFFFF"
proof -
  let ?s = "runEvents es (initialState store)"
  have i: "\<not> recursing (initialState store)" "0 \<le> sint (pendingSnapshots (initialState store))"
    "sint (pendingSnapshots (initialState store)) \<le> int 0"
    by (simp_all add: initialState_def)
  have "0 + length es < 2147483647" using assms by simp
  from runEvents_invariant [OF i this]
  have r: "\<not> recursing ?s" and lo: "0 \<le> sint (pendingSnapshots ?s)"
    and hi: "sint (pendingSnapshots ?s) \<le> int (length es)" by simp_all
  have "pendingSnapshots ?s \<noteq> 0x7FFFFFFF"
  proof
    assume "pendingSnapshots ?s = 0x7FFFFFFF"
    then have "sint (pendingSnapshots ?s) = 2147483647" by simp
    then show False using hi assms by simp
  qed
  then show ?thesis using r lo by (simp add: word_sle_eq)
qed


end
